theory Spec2Isabelle
  imports Main
begin

section \<open>Scales and chords\<close>

text \<open>
  The two classes of \<^verbatim>\<open>harmony.py\<close>. Intervals are Python integers (\<open>int\<close>); a degree
  of a scale is a position in its interval list (\<open>nat\<close>). The dictionary \<open>chords\<close> maps a
  chord name to the set of base notes at which the chord was found; a missing key is
  \<open>None\<close>. The constructor of \<open>Scale\<close> starts it empty.
\<close>

datatype py_error = ZeroDivisionError | IndexError | KeyError

record scale =
  name :: string
  intervals :: "int list"
  chords :: "string \<rightharpoonup> nat set"

record chord =
  name :: string
  intervals :: "int list"

definition Scale :: "string \<Rightarrow> int list \<Rightarrow> scale" where
  "Scale n ivs = \<lparr>scale.name = n, scale.intervals = ivs, chords = Map.empty\<rparr>"

definition Chord :: "string \<Rightarrow> int list \<Rightarrow> chord" where
  "Chord n ivs = \<lparr>chord.name = n, chord.intervals = ivs\<rparr>"

definition num_notes :: "scale \<Rightarrow> nat" where
  "num_notes s = length (scale.intervals s)"

section \<open>The chord search\<close>

text \<open>
  The innermost loop of \<open>add_chord\<close>, \<^verbatim>\<open>while True\<close>: add the interval at \<open>i\<close>, step \<open>i\<close>
  cyclically, leave on equality, or on overshoot with \<open>illegal_chord\<close> set. The result is
  the pair (was \<open>illegal_chord\<close> set, the new \<open>i\<close>). The loop has no bound of its own, so it
  is a partial function: \<open>None\<close> stands for a loop that never leaves. The index \<open>i\<close> stays
  below the length of the list: it starts at a base note and is reduced modulo the length
  after each step.
\<close>

partial_function (option) accumulate ::
  "int list \<Rightarrow> int \<Rightarrow> nat \<Rightarrow> int \<Rightarrow> (bool \<times> nat) option" where
  "accumulate ivs current_interval i accumulated_interval =
     (let acc = accumulated_interval + ivs ! i;
          i' = Suc i mod length ivs
      in if acc = current_interval then Some (False, i')
         else if acc > current_interval then Some (True, i')
         else accumulate ivs current_interval i' acc)"

declare accumulate.simps [code]

text \<open>
  The loop \<^verbatim>\<open>for current_interval in chord.intervals\<close>. An overshoot leaves only the
  \<^verbatim>\<open>while\<close> loop: the remaining chord intervals are still walked, with
  \<open>illegal_chord\<close> staying set.
\<close>

fun match_intervals :: "int list \<Rightarrow> int list \<Rightarrow> nat \<Rightarrow> bool \<Rightarrow> (bool \<times> nat) option" where
  "match_intervals ivs [] i illegal_chord = Some (illegal_chord, i)"
| "match_intervals ivs (current_interval # rest) i illegal_chord =
     (case accumulate ivs current_interval i 0 of
        None \<Rightarrow> None
      | Some (over, i') \<Rightarrow> match_intervals ivs rest i' (illegal_chord \<or> over))"

text \<open>
  The loop \<^verbatim>\<open>for base_note in range(0, self.num_notes())\<close>, threading the set stored
  under the chord's name and the flag \<open>chord_added\<close>.
\<close>

fun try_base_notes ::
  "int list \<Rightarrow> int list \<Rightarrow> nat list \<Rightarrow> nat set \<Rightarrow> bool \<Rightarrow> (nat set \<times> bool) option" where
  "try_base_notes ivs cis [] found chord_added = Some (found, chord_added)"
| "try_base_notes ivs cis (base_note # rest) found chord_added =
     (case match_intervals ivs cis base_note False of
        None \<Rightarrow> None
      | Some (illegal_chord, _) \<Rightarrow>
          if \<not> illegal_chord then try_base_notes ivs cis rest (insert base_note found) True
          else try_base_notes ivs cis rest found chord_added)"

text \<open>
  \<open>add_chord\<close> returns its boolean and the scale with the dictionary entry overwritten.
\<close>

definition add_chord :: "scale \<Rightarrow> chord \<Rightarrow> (bool \<times> scale) option" where
  "add_chord s c =
     (case try_base_notes (scale.intervals s) (chord.intervals c) [0..<num_notes s] {} False of
        None \<Rightarrow> None
      | Some (found, chord_added) \<Rightarrow>
          Some (chord_added, s\<lparr>chords := (chords s)(chord.name c \<mapsto> found)\<rparr>))"

text \<open>
  \<open>has_chord\<close>: the memoised answer when the name is a key, \<open>add_chord\<close> otherwise.
\<close>

definition has_chord :: "scale \<Rightarrow> chord \<Rightarrow> (bool \<times> scale) option" where
  "has_chord s c =
     (case chords s (chord.name c) of
        Some roots \<Rightarrow> if roots \<noteq> {} then Some (True, s) else Some (False, s)
      | None \<Rightarrow> add_chord s c)"

section \<open>The catalogue\<close>

definition major_scale :: scale where
  "major_scale = Scale ''Major'' [2,2,1,2,2,2,1]"

definition minor_scale :: scale where
  "minor_scale = Scale ''Minor'' [2,1,2,2,1,2,2]"

definition melodic_minor :: scale where
  "melodic_minor = Scale ''Melodic Minor'' [2,1,2,2,1,3,1]"

definition harmonic_minor :: scale where
  "harmonic_minor = Scale ''Harmonic Minor'' [2,1,2,2,2,2,1]"

definition major_chord :: chord where
  "major_chord = Chord ''Major'' [4,3]"

definition minor_chord :: chord where
  "minor_chord = Chord ''Minor'' [3,4]"

definition dim_chord :: chord where
  "dim_chord = Chord ''Diminished'' [3,3]"

definition aug_chord :: chord where
  "aug_chord = Chord ''Augmented'' [4,4]"

definition sus2_chord :: chord where
  "sus2_chord = Chord ''Sus2'' [2,5]"

definition sus4_chord :: chord where
  "sus4_chord = Chord ''Sus4'' [5,2]"

section \<open>Distances between degrees\<close>

text \<open>
  The loop of \<open>interval_between\<close>, \<^verbatim>\<open>for k in range(0, j - i)\<close>. The index is reduced
  modulo \<open>num_notes()\<close>, which raises \<open>ZeroDivisionError\<close> on a scale without intervals.
\<close>

fun sum_steps :: "int list \<Rightarrow> nat \<Rightarrow> nat list \<Rightarrow> int \<Rightarrow> py_error + int" where
  "sum_steps ivs i [] accumulated_interval = Inr accumulated_interval"
| "sum_steps ivs i (k # ks) accumulated_interval =
     (if length ivs = 0 then Inl ZeroDivisionError
      else sum_steps ivs i ks (accumulated_interval + ivs ! ((i + k) mod length ivs)))"

text \<open>
  The indices are degrees, so natural numbers; they need not be below \<open>num_notes()\<close> and
  need not be ordered.
\<close>

definition interval_between :: "scale \<Rightarrow> nat \<Rightarrow> nat \<Rightarrow> py_error + int" where
  "interval_between s i j =
     (let (i, j) = (if i > j then (j, i) else (i, j))
      in sum_steps (scale.intervals s) i [0..<j - i] 0)"

section \<open>Printing\<close>

text \<open>
  Python's \<open>str\<close> on an integer: decimal digits, with a minus sign below zero.
\<close>

fun digits :: "nat \<Rightarrow> string" where
  "digits n = (if n < 10 then [''0123456789'' ! n]
               else digits (n div 10) @ [''0123456789'' ! (n mod 10)])"

declare digits.simps [simp del]

definition str :: "int \<Rightarrow> string" where
  "str n = (if n < 0 then CHR ''-'' # digits (nat (- n)) else digits (nat n))"

text \<open>
  \<open>str.format\<close> on the format strings of this program, whose replacement fields all are
  one decimal digit between braces: the field \<open>{d}\<close> is replaced by the positional argument
  \<open>d\<close>, every other character is copied, and arguments that no field names are ignored.
  A field beyond the arguments raises \<open>IndexError\<close>.
\<close>

fun py_format :: "string \<Rightarrow> string list \<Rightarrow> py_error + string" where
  "py_format (a # d # b # rest) args =
     (if a = CHR ''{'' \<and> d \<in> set ''0123456789'' \<and> b = CHR ''}''
      then (if of_char d - 48 < length args
            then (case py_format rest args of
                    Inl e \<Rightarrow> Inl e
                  | Inr out \<Rightarrow> Inr (args ! (of_char d - 48) @ out))
            else Inl IndexError)
      else (case py_format (d # b # rest) args of
              Inl e \<Rightarrow> Inl e
            | Inr out \<Rightarrow> Inr (a # out)))"
| "py_format cs args = Inr cs"

section \<open>Relationships between two scales\<close>

text \<open>The format string of the line printed for each pair of roots.\<close>

definition relationship_format :: string where
  "relationship_format =
     ''Distance between {0} to {1} (via {2} chord at {3} for the first scale to {4} of the second scale) (Looking where Scale 2 is relative to Scale 1) is {5} fifths right, or {6} fourths left or, or semitones right.\<newline>''"

text \<open>
  The body of the two nested loops of \<open>chordal_relationships\<close>: the line it prints and the
  value it adds to \<open>fifths_relations\<close>. Both distances are taken on \<open>scale_1\<close>. The call of
  \<open>format\<close> receives eight arguments.
\<close>

definition relationship ::
  "scale \<Rightarrow> scale \<Rightarrow> chord \<Rightarrow> nat \<Rightarrow> nat \<Rightarrow> py_error + (string \<times> int)" where
  "relationship scale_1 scale_2 c root_1 root_2 =
     (case interval_between scale_1 0 root_1 of
        Inl e \<Rightarrow> Inl e
      | Inr dist_1 \<Rightarrow>
     (case interval_between scale_1 0 root_2 of
        Inl e \<Rightarrow> Inl e
      | Inr dist_2 \<Rightarrow>
     (let key_distance = dist_2 - dist_1 in
      case py_format relationship_format
             [scale.name scale_1, scale.name scale_2, chord.name c,
              str (int root_1 + 1), str (int root_2 + 1),
              str ((key_distance * 7) mod 12),
              str ((12 - ((key_distance * 7) mod 12)) mod 12),
              str (key_distance mod 12)] of
        Inl e \<Rightarrow> Inl e
      | Inr line \<Rightarrow> Inr (line, (key_distance * 7) mod 12))))"

text \<open>
  What a call of \<open>chordal_relationships\<close> prints: the lines of the pairs, and the summary
  line, which names the chord and shows the set \<open>fifths_relations\<close>. Python does not fix
  the order in which a set is walked, so the lines of the pairs are kept as a set, and the
  summary is kept as its two arguments rather than as text.
\<close>

record report =
  lines :: "string set"
  summary_chord :: string
  fifths_relations :: "int set"

text \<open>
  The two nested loops over the root sets. The only exception their body can raise is the
  \<open>ZeroDivisionError\<close> of \<open>interval_between\<close> (lemma \<open>relationship_error\<close> below), and the
  loops raise it when the body does at any pair.
\<close>

definition relationships ::
  "scale \<Rightarrow> scale \<Rightarrow> chord \<Rightarrow> nat set \<Rightarrow> nat set \<Rightarrow> py_error + report" where
  "relationships scale_1 scale_2 c roots_1 roots_2 =
     (if \<exists>root_1 \<in> roots_1. \<exists>root_2 \<in> roots_2.
           isl (relationship scale_1 scale_2 c root_1 root_2)
      then Inl ZeroDivisionError
      else Inr \<lparr>lines = (\<lambda>(root_1, root_2).
                    fst (projr (relationship scale_1 scale_2 c root_1 root_2)))
                  ` (roots_1 \<times> roots_2),
                summary_chord = chord.name c,
                fifths_relations = (\<lambda>(root_1, root_2).
                    snd (projr (relationship scale_1 scale_2 c root_1 root_2)))
                  ` (roots_1 \<times> roots_2)\<rparr>)"

text \<open>
  Scales are objects that \<open>has_chord\<close> mutates, and the two scales of a call may be the
  same object. So \<open>chordal_relationships\<close> works on a store of scales and takes two
  references. The second \<open>has_chord\<close> is evaluated only when the first one is true
  (\<^verbatim>\<open>and\<close>), and on the store the first one left. The summary is printed on every path.
\<close>

type_synonym ref = nat

type_synonym store = "ref \<Rightarrow> scale"

definition chordal_relationships ::
  "store \<Rightarrow> ref \<Rightarrow> ref \<Rightarrow> chord \<Rightarrow> (store \<times> (py_error + report)) option" where
  "chordal_relationships h scale_1 scale_2 c =
     (let nothing = \<lparr>lines = {}, summary_chord = chord.name c, fifths_relations = {}\<rparr> in
      case has_chord (h scale_1) c of
        None \<Rightarrow> None
      | Some (has_1, s1) \<Rightarrow>
          (let h1 = h(scale_1 := s1) in
           if has_1 then
             (case has_chord (h1 scale_2) c of
                None \<Rightarrow> None
              | Some (has_2, s2) \<Rightarrow>
                  (let h2 = h1(scale_2 := s2) in
                   if has_2 then
                     (case chords (h2 scale_1) (chord.name c) of
                        None \<Rightarrow> Some (h2, Inl KeyError)
                      | Some roots_1 \<Rightarrow>
                     (case chords (h2 scale_2) (chord.name c) of
                        None \<Rightarrow> Some (h2, Inl KeyError)
                      | Some roots_2 \<Rightarrow>
                          Some (h2, relationships (h2 scale_1) (h2 scale_2) c roots_1 roots_2)))
                   else Some (h2, Inr nothing)))
           else Some (h1, Inr nothing)))"

text \<open>The set \<open>fifths_relations\<close> of a call that returned normally.\<close>

definition reachable :: "(store \<times> (py_error + report)) option \<Rightarrow> int set option" where
  "reachable r =
     (case r of Some (_, Inr rep) \<Rightarrow> Some (fifths_relations rep) | _ \<Rightarrow> None)"

section \<open>The specification's reading of the search\<close>

text \<open>
  The scales the documentation of \<open>Scale\<close> assumes: at least one interval, all positive.
\<close>

definition strictly_ascending :: "int list \<Rightarrow> bool" where
  "strictly_ascending ivs = (ivs \<noteq> [] \<and> list_all (\<lambda>x. 0 < x) ivs)"

text \<open>
  The walk as the specification words it, for one target: from degree \<open>i\<close> with running
  sum \<open>acc\<close>, keep adding intervals, cyclically. \<open>spec_match ivs i acc t i'\<close>: the running
  sum equals the target \<open>t\<close> without having exceeded it, and the walk then stands at \<open>i'\<close>.
  \<open>spec_exceeds ivs i acc t\<close>: the running sum strictly exceeds \<open>t\<close> before equalling it.
\<close>

inductive spec_match :: "int list \<Rightarrow> nat \<Rightarrow> int \<Rightarrow> int \<Rightarrow> nat \<Rightarrow> bool" where
  match_here: "acc + ivs ! i = t \<Longrightarrow> spec_match ivs i acc t (Suc i mod length ivs)"
| match_later: "acc + ivs ! i < t \<Longrightarrow>
     spec_match ivs (Suc i mod length ivs) (acc + ivs ! i) t i' \<Longrightarrow> spec_match ivs i acc t i'"

inductive spec_exceeds :: "int list \<Rightarrow> nat \<Rightarrow> int \<Rightarrow> int \<Rightarrow> bool" where
  exceeds_here: "acc + ivs ! i > t \<Longrightarrow> spec_exceeds ivs i acc t"
| exceeds_later: "acc + ivs ! i < t \<Longrightarrow>
     spec_exceeds ivs (Suc i mod length ivs) (acc + ivs ! i) t \<Longrightarrow> spec_exceeds ivs i acc t"

text \<open>
  \<open>spec_fits ivs r ts\<close>: from root \<open>r\<close> every target of \<open>ts\<close> is matched in turn, the
  running sum starting again from zero at the degree where the previous match ended.
  \<open>spec_excluded ivs r ts\<close>: some target's running sum exceeds it, the targets before it
  having been matched.
\<close>

inductive spec_fits :: "int list \<Rightarrow> nat \<Rightarrow> int list \<Rightarrow> bool" where
  fits_done: "spec_fits ivs r []"
| fits_next: "spec_match ivs r 0 t r' \<Longrightarrow> spec_fits ivs r' ts \<Longrightarrow> spec_fits ivs r (t # ts)"

inductive spec_excluded :: "int list \<Rightarrow> nat \<Rightarrow> int list \<Rightarrow> bool" where
  excluded_here: "spec_exceeds ivs r 0 t \<Longrightarrow> spec_excluded ivs r (t # ts)"
| excluded_later: "spec_match ivs r 0 t r' \<Longrightarrow> spec_excluded ivs r' ts \<Longrightarrow>
     spec_excluded ivs r (t # ts)"

text \<open>The set the specification has \<open>add_chord\<close> store: the fitting roots of the scale.\<close>

definition spec_fitting_roots :: "scale \<Rightarrow> chord \<Rightarrow> nat set" where
  "spec_fitting_roots s c =
     {r. r < num_notes s \<and> spec_fits (scale.intervals s) r (chord.intervals c)}"

text \<open>
  The pairwise differences among a set of numbers, scaled by 7 modulo 12; and the fifths
  set as the specification's test words it, with the differences taken among the roots.
\<close>

definition pairwise_fifths :: "int set \<Rightarrow> int set" where
  "pairwise_fifths ds = (\<lambda>(d_1, d_2). ((d_2 - d_1) * 7) mod 12) ` (ds \<times> ds)"

definition spec_pairwise_fifths :: "nat set \<Rightarrow> int set" where
  "spec_pairwise_fifths roots = pairwise_fifths (int ` roots)"

section \<open>Concrete searches\<close>

lemma major_scale_ascending: "strictly_ascending (scale.intervals major_scale)"
  by (simp add: strictly_ascending_def major_scale_def Scale_def)

lemma major_in_major:
  "add_chord (major_scale\<lparr>chords := m\<rparr>) major_chord =
     Some (True, major_scale\<lparr>chords := m(''Major'' \<mapsto> {0, 3, 4})\<rparr>)"
  apply (simp add: add_chord_def num_notes_def major_scale_def major_chord_def Scale_def
      Chord_def accumulate.simps upt_conv_Cons)
  apply (auto simp: eval_nat_numeral)
  done

lemma dim_in_major:
  "add_chord (major_scale\<lparr>chords := m\<rparr>) dim_chord =
     Some (True, major_scale\<lparr>chords := m(''Diminished'' \<mapsto> {6})\<rparr>)"
  apply (simp add: add_chord_def num_notes_def major_scale_def dim_chord_def Scale_def
      Chord_def accumulate.simps upt_conv_Cons)
  apply (simp add: eval_nat_numeral)
  done

lemma aug_in_major:
  "add_chord (major_scale\<lparr>chords := m\<rparr>) aug_chord =
     Some (False, major_scale\<lparr>chords := m(''Augmented'' \<mapsto> {})\<rparr>)"
  by (simp add: add_chord_def num_notes_def major_scale_def aug_chord_def Scale_def
      Chord_def accumulate.simps upt_conv_Cons)

lemma aug_in_harmonic_minor:
  "add_chord (harmonic_minor\<lparr>chords := m\<rparr>) aug_chord =
     Some (True, harmonic_minor\<lparr>chords := m(''Augmented'' \<mapsto> {2, 4, 6})\<rparr>)"
  apply (simp add: add_chord_def num_notes_def harmonic_minor_def aug_chord_def Scale_def
      Chord_def accumulate.simps upt_conv_Cons)
  apply (auto simp: eval_nat_numeral)
  done

lemma fresh_scale: "Scale n ivs\<lparr>chords := Map.empty\<rparr> = Scale n ivs"
  by (simp add: Scale_def)

text \<open>
  C5. On the Major scale \<open>[2,2,1,2,2,2,1]\<close>, whatever its dictionary holds before,
  \<open>add_chord\<close> with the Major chord \<open>[4,3]\<close> stores exactly \<open>{0, 3, 4}\<close> and with the
  Diminished chord \<open>[3,3]\<close> exactly \<open>{6}\<close>.
\<close>

theorem add_chord_major_scale:
  "add_chord (major_scale\<lparr>chords := m\<rparr>) major_chord =
     Some (True, major_scale\<lparr>chords := m(''Major'' \<mapsto> {0, 3, 4})\<rparr>)
   \<and> add_chord (major_scale\<lparr>chords := m\<rparr>) dim_chord =
     Some (True, major_scale\<lparr>chords := m(''Diminished'' \<mapsto> {6})\<rparr>)"
  using major_in_major dim_in_major by (rule conjI)

section \<open>The search terminates on ascending scales\<close>

lemma strictly_ascending_nth:
  "strictly_ascending ivs \<Longrightarrow> i < length ivs \<Longrightarrow> 0 < ivs ! i"
  by (simp add: strictly_ascending_def list_all_length)

lemma strictly_ascending_mod:
  "strictly_ascending ivs \<Longrightarrow> Suc i mod length ivs < length ivs"
  by (simp add: strictly_ascending_def)

text \<open>
  The distance of the running sum to the target shrinks with every turn of the
  \<^verbatim>\<open>while\<close> loop, so the loop leaves.
\<close>

lemma accumulate_total:
  assumes "strictly_ascending ivs" and "i < length ivs"
  shows "\<exists>over i'. accumulate ivs t i acc = Some (over, i') \<and> i' < length ivs"
  using assms(2)
proof (induction "nat (t - acc)" arbitrary: i acc rule: less_induct)
  case less
  let ?acc = "acc + ivs ! i" and ?i = "Suc i mod length ivs"
  have pos: "0 < ivs ! i" using assms(1) less.prems by (rule strictly_ascending_nth)
  have lt: "?i < length ivs" using assms(1) by (rule strictly_ascending_mod)
  show ?case
  proof (cases "?acc < t")
    case True
    then have "nat (t - ?acc) < nat (t - acc)" using pos by linarith
    from less.hyps [OF this lt] True show ?thesis
      by (subst accumulate.simps) (simp add: Let_def)
  next
    case False
    then show ?thesis using lt
      by (subst accumulate.simps) (auto simp: Let_def)
  qed
qed

lemma match_intervals_total:
  assumes "strictly_ascending ivs"
  shows "i < length ivs \<Longrightarrow>
    \<exists>illegal i'. match_intervals ivs cis i illegal_chord = Some (illegal, i') \<and> i' < length ivs
       \<and> (illegal_chord \<longrightarrow> illegal)"
proof (induction cis arbitrary: i illegal_chord)
  case Nil
  then show ?case by simp
next
  case (Cons t cis)
  from accumulate_total [OF assms Cons.prems, of t 0]
  obtain over i' where a: "accumulate ivs t i 0 = Some (over, i')" and i': "i' < length ivs"
    by blast
  from Cons.IH [OF i', of "illegal_chord \<or> over"] a show ?case by auto
qed

lemma try_base_notes_total:
  assumes "strictly_ascending ivs"
  shows "\<forall>b \<in> set bs. b < length ivs \<Longrightarrow>
    \<exists>found' added'. try_base_notes ivs cis bs found chord_added = Some (found', added')"
proof (induction bs arbitrary: found chord_added)
  case Nil
  then show ?case by simp
next
  case (Cons b bs)
  then have "b < length ivs" by simp
  from match_intervals_total [OF assms this, of cis False]
  obtain illegal i' where m: "match_intervals ivs cis b False = Some (illegal, i')" by blast
  from Cons show ?case by (simp add: m)
qed

text \<open>
  C10. On a scale with at least one interval, all intervals positive, every turn of the
  \<^verbatim>\<open>while\<close> loop makes the running sum strictly larger, the loop leaves from every
  degree, target and running sum (on equality or on overshoot), and \<open>add_chord\<close>
  returns, for every chord.
\<close>

theorem add_chord_terminates:
  assumes "strictly_ascending (scale.intervals s)"
  shows "(\<forall>i acc. i < num_notes s \<longrightarrow> acc < acc + scale.intervals s ! i)
         \<and> (\<forall>t i acc. i < num_notes s \<longrightarrow>
            (\<exists>over i'. accumulate (scale.intervals s) t i acc = Some (over, i')
               \<and> i' < num_notes s))
         \<and> (\<exists>b s'. add_chord s c = Some (b, s'))"
proof -
  have "\<exists>found' added'. try_base_notes (scale.intervals s) (chord.intervals c)
           [0..<num_notes s] {} False = Some (found', added')"
    by (rule try_base_notes_total [OF assms]) (simp add: num_notes_def)
  then have "\<exists>b s'. add_chord s c = Some (b, s')"
    by (auto simp: add_chord_def)
  moreover have "\<forall>t i acc. i < num_notes s \<longrightarrow>
            (\<exists>over i'. accumulate (scale.intervals s) t i acc = Some (over, i')
               \<and> i' < num_notes s)"
    using accumulate_total [OF assms] by (simp add: num_notes_def)
  moreover have "\<forall>i acc. i < num_notes s \<longrightarrow> acc < acc + scale.intervals s ! i"
    using strictly_ascending_nth [OF assms] by (simp add: num_notes_def)
  ultimately show ?thesis by simp
qed

theorem add_chord_terminates_witness:
  "strictly_ascending (scale.intervals major_scale)
   \<and> (\<exists>over i'. accumulate (scale.intervals major_scale) 4 0 0 = Some (over, i') \<and> i' < 7)
   \<and> (\<exists>b s'. add_chord major_scale sus4_chord = Some (b, s'))"
proof -
  have n: "num_notes major_scale = 7"
    by (simp add: num_notes_def major_scale_def Scale_def)
  note t = add_chord_terminates [OF major_scale_ascending, of sus4_chord, unfolded n]
  from t have "\<exists>over i'. accumulate (scale.intervals major_scale) 4 0 0 = Some (over, i')
      \<and> i' < 7"
    by simp
  with t major_scale_ascending show ?thesis by blast
qed

section \<open>A chord that begins with 0\<close>

lemma accumulate_zero:
  assumes "strictly_ascending ivs" and "i < length ivs"
  shows "accumulate ivs 0 i 0 = Some (True, Suc i mod length ivs)"
  using strictly_ascending_nth [OF assms]
  by (subst accumulate.simps) (simp add: Let_def)

lemma match_intervals_zero:
  assumes "strictly_ascending ivs" and "i < length ivs"
  shows "\<exists>i'. match_intervals ivs (0 # cis) i False = Some (True, i')"
proof -
  have "Suc i mod length ivs < length ivs"
    using assms(1) by (rule strictly_ascending_mod)
  from match_intervals_total [OF assms(1) this]
  have "\<exists>illegal i'. match_intervals ivs cis (Suc i mod length ivs) True = Some (illegal, i')
          \<and> i' < length ivs \<and> (True \<longrightarrow> illegal)" .
  then show ?thesis by (auto simp: accumulate_zero [OF assms])
qed

lemma try_base_notes_zero:
  assumes "strictly_ascending ivs"
  shows "\<forall>b \<in> set bs. b < length ivs \<Longrightarrow>
    try_base_notes ivs (0 # cis) bs found chord_added = Some (found, chord_added)"
proof (induction bs)
  case Nil
  then show ?case by simp
next
  case (Cons b bs)
  then have "b < length ivs" by simp
  from match_intervals_zero [OF assms this, of cis]
  obtain i' where "match_intervals ivs (0 # cis) b False = Some (True, i')" by blast
  with Cons show ?case by simp
qed

text \<open>
  C6. On a scale with at least one interval, all intervals positive, \<open>add_chord\<close> with a
  chord whose interval list begins with 0 stores the empty set under the chord's name
  and returns false.
\<close>

theorem add_chord_zero_target:
  assumes "strictly_ascending (scale.intervals s)"
    and "chord.intervals c = 0 # cis"
  shows "add_chord s c = Some (False, s\<lparr>chords := (chords s)(chord.name c \<mapsto> {})\<rparr>)"
proof -
  have "try_base_notes (scale.intervals s) (0 # cis) [0..<num_notes s] {} False
          = Some ({}, False)"
    by (rule try_base_notes_zero [OF assms(1)]) (simp add: num_notes_def)
  then show ?thesis by (simp add: add_chord_def assms(2))
qed

theorem add_chord_zero_target_witness:
  "strictly_ascending (scale.intervals major_scale)
   \<and> chord.intervals (Chord ''Zero'' [0, 4]) = 0 # [4]
   \<and> add_chord major_scale (Chord ''Zero'' [0, 4])
       = Some (False, major_scale\<lparr>chords := [''Zero'' \<mapsto> {}]\<rparr>)"
proof -
  have c: "chord.intervals (Chord ''Zero'' [0, 4]) = 0 # [4]"
    by (simp add: Chord_def)
  have "add_chord major_scale (Chord ''Zero'' [0, 4])
       = Some (False, major_scale\<lparr>chords := (chords major_scale)
            (chord.name (Chord ''Zero'' [0, 4]) \<mapsto> {})\<rparr>)"
    by (rule add_chord_zero_target [OF major_scale_ascending c])
  then have "add_chord major_scale (Chord ''Zero'' [0, 4])
       = Some (False, major_scale\<lparr>chords := [''Zero'' \<mapsto> {}]\<rparr>)"
    by (simp add: Chord_def major_scale_def Scale_def)
  with major_scale_ascending c show ?thesis by blast
qed

section \<open>Distances\<close>

lemma sum_steps_eq:
  "ivs \<noteq> [] \<Longrightarrow>
   sum_steps ivs i ks acc = Inr (acc + sum_list (map (\<lambda>k. ivs ! ((i + k) mod length ivs)) ks))"
  by (induction ks arbitrary: acc) simp_all

lemma sum_list_rotate: "sum_list (rotate n xs) = sum_list (xs :: int list)"
proof -
  let ?m = "n mod length xs"
  have "sum_list (rotate n xs) = sum_list (drop ?m xs) + sum_list (take ?m xs)"
    by (simp add: rotate_drop_take)
  also have "\<dots> = sum_list xs"
    using sum_list_append [of "take ?m xs" "drop ?m xs"] by simp
  finally show ?thesis .
qed

lemma cycle_is_rotate:
  "map (\<lambda>k. ivs ! ((i + k) mod length ivs)) [0..<length ivs] = rotate i ivs"
  by (rule nth_equalityI) (simp_all add: nth_rotate)

lemma interval_between_cycle:
  assumes "scale.intervals s \<noteq> []"
  shows "interval_between s i (i + num_notes s) = Inr (sum_list (scale.intervals s))"
  using assms
  by (simp add: interval_between_def num_notes_def sum_steps_eq cycle_is_rotate sum_list_rotate)

text \<open>
  C7. On a scale with at least one interval, the distance from any degree \<open>i\<close> to
  \<open>i + num_notes()\<close> is the sum of the intervals; on the Major scale the distance from 0
  to 7 is 12.
\<close>

theorem interval_between_full_cycle:
  "(scale.intervals s \<noteq> [] \<longrightarrow>
      interval_between s i (i + num_notes s) = Inr (sum_list (scale.intervals s)))
   \<and> interval_between major_scale 0 7 = Inr 12"
proof -
  have n: "0 + num_notes major_scale = 7"
    and t: "sum_list (scale.intervals major_scale) = 12"
    by (simp_all add: num_notes_def major_scale_def Scale_def)
  have "interval_between major_scale 0 (0 + num_notes major_scale)
          = Inr (sum_list (scale.intervals major_scale))"
    by (rule interval_between_cycle) (simp add: major_scale_def Scale_def)
  then have "interval_between major_scale 0 7 = Inr 12"
    unfolding n t .
  then show ?thesis using interval_between_cycle by blast
qed

theorem interval_between_full_cycle_witness:
  "scale.intervals minor_scale \<noteq> []
   \<and> interval_between minor_scale 5 12 = Inr 12"
proof -
  have n: "scale.intervals minor_scale \<noteq> []"
    by (simp add: minor_scale_def Scale_def)
  have m: "5 + num_notes minor_scale = 12"
    and t: "sum_list (scale.intervals minor_scale) = 12"
    by (simp_all add: num_notes_def minor_scale_def Scale_def)
  from interval_between_full_cycle [of minor_scale 5] n
  have "interval_between minor_scale 5 (5 + num_notes minor_scale)
          = Inr (sum_list (scale.intervals minor_scale))"
    by blast
  then have "interval_between minor_scale 5 12 = Inr 12"
    unfolding m t .
  with n show ?thesis by blast
qed

lemma interval_between_commute: "interval_between s i j = interval_between s j i"
  by (cases i j rule: linorder_cases) (simp_all add: interval_between_def)

lemma interval_between_same: "interval_between s i i = Inr 0"
  by (simp add: interval_between_def)

text \<open>
  C8. On a scale with at least one interval, \<open>interval_between\<close> returns a distance for
  all degrees \<open>i\<close> and \<open>j\<close>, the same distance for \<open>j\<close> and \<open>i\<close>, and 0 when the two are
  the same degree.
\<close>

theorem interval_between_symmetric:
  assumes "scale.intervals s \<noteq> []"
  shows "(\<exists>d. interval_between s i j = Inr d \<and> interval_between s j i = Inr d)
         \<and> interval_between s i i = Inr 0"
proof -
  obtain d where "interval_between s i j = Inr d"
    using assms by (cases "j < i") (simp_all add: interval_between_def sum_steps_eq)
  moreover have "interval_between s j i = interval_between s i j"
    by (rule interval_between_commute)
  ultimately show ?thesis by (simp add: interval_between_same)
qed

theorem interval_between_symmetric_witness:
  "scale.intervals major_scale \<noteq> []
   \<and> interval_between major_scale 9 3 = Inr 11
   \<and> interval_between major_scale 3 9 = Inr 11
   \<and> interval_between major_scale 9 9 = Inr 0"
proof -
  have n: "scale.intervals major_scale \<noteq> []"
    by (simp add: major_scale_def Scale_def)
  have e: "interval_between major_scale 9 3 = Inr 11"
    by (simp add: interval_between_def major_scale_def Scale_def upt_conv_Cons)
  from interval_between_symmetric [OF n, of 9 3] e n show ?thesis by auto
qed

section \<open>Repeated calls\<close>

lemma try_base_notes_added:
  "try_base_notes ivs cis bs found chord_added = Some (found', added') \<Longrightarrow>
   (chord_added \<longleftrightarrow> found \<noteq> {}) \<Longrightarrow> (added' \<longleftrightarrow> found' \<noteq> {})"
proof (induction bs arbitrary: found chord_added)
  case Nil
  then show ?case by auto
next
  case (Cons b bs)
  from Cons.prems(1) obtain illegal i' where
    m: "match_intervals ivs cis b False = Some (illegal, i')"
    by (auto split: option.splits)
  show ?case
  proof (cases illegal)
    case True
    with Cons.prems m have "try_base_notes ivs cis bs found chord_added = Some (found', added')"
      by simp
    then show ?thesis using Cons.prems(2) by (rule Cons.IH)
  next
    case False
    with Cons.prems m
    have "try_base_notes ivs cis bs (insert b found) True = Some (found', added')"
      by simp
    then show ?thesis by (rule Cons.IH) simp
  qed
qed

lemma add_chord_stored:
  assumes "add_chord s c = Some (b, s')"
  shows "\<exists>found. s' = s\<lparr>chords := (chords s)(chord.name c \<mapsto> found)\<rparr> \<and> (b \<longleftrightarrow> found \<noteq> {})
    \<and> try_base_notes (scale.intervals s) (chord.intervals c) [0..<num_notes s] {} False
        = Some (found, b)"
proof -
  from assms obtain found where
    t: "try_base_notes (scale.intervals s) (chord.intervals c) [0..<num_notes s] {} False
          = Some (found, b)"
    and s': "s' = s\<lparr>chords := (chords s)(chord.name c \<mapsto> found)\<rparr>"
    by (auto simp: add_chord_def split: option.splits)
  from try_base_notes_added [OF t] have "b \<longleftrightarrow> found \<noteq> {}" by simp
  with t s' show ?thesis by blast
qed

lemma add_chord_again:
  assumes "add_chord s c = Some (b, s')"
  shows "add_chord s' c = Some (b, s')"
proof -
  from add_chord_stored [OF assms] obtain found where
    s': "s' = s\<lparr>chords := (chords s)(chord.name c \<mapsto> found)\<rparr>"
    and t: "try_base_notes (scale.intervals s) (chord.intervals c) [0..<num_notes s] {} False
        = Some (found, b)"
    by blast
  show ?thesis
    by (simp add: add_chord_def s' num_notes_def t [unfolded num_notes_def])
qed

lemma has_chord_stable:
  assumes "has_chord s c = Some (b, s')"
  shows "(\<exists>roots. chords s' (chord.name c) = Some roots \<and> (b \<longleftrightarrow> roots \<noteq> {}))
         \<and> has_chord s' c = Some (b, s')"
proof (cases "chords s (chord.name c)")
  case None
  with assms have a: "add_chord s c = Some (b, s')"
    by (simp add: has_chord_def)
  from add_chord_stored [OF a] obtain found where
    "s' = s\<lparr>chords := (chords s)(chord.name c \<mapsto> found)\<rparr>" and "b \<longleftrightarrow> found \<noteq> {}"
    by blast
  then show ?thesis by (simp add: has_chord_def)
next
  case (Some roots)
  with assms show ?thesis
    by (auto simp: has_chord_def split: if_splits)
qed

lemma add_chord_total:
  assumes "strictly_ascending (scale.intervals s)"
  shows "\<exists>b s'. add_chord s c = Some (b, s')"
proof -
  have "\<exists>found' added'. try_base_notes (scale.intervals s) (chord.intervals c)
           [0..<num_notes s] {} False = Some (found', added')"
    by (rule try_base_notes_total [OF assms]) (simp add: num_notes_def)
  then show ?thesis by (auto simp: add_chord_def)
qed

lemma has_chord_total:
  assumes "strictly_ascending (scale.intervals s)"
  shows "\<exists>b s'. has_chord s c = Some (b, s')"
  using add_chord_total [OF assms, of c]
  by (auto simp: has_chord_def split: option.splits)

text \<open>
  C4. Whenever \<open>has_chord\<close> returns, its answer is true exactly when the set then stored
  under the chord's name is not empty, and a further call returns the same answer and
  leaves the scale as it is. Whenever \<open>add_chord\<close> returns, a second run returns the same
  answer and stores the same set. Both return on every scale with at least one interval,
  all intervals positive.
\<close>

theorem has_chord_repeatable:
  "(has_chord s c = Some (b, s') \<longrightarrow>
      (\<exists>roots. chords s' (chord.name c) = Some roots \<and> (b \<longleftrightarrow> roots \<noteq> {}))
      \<and> has_chord s' c = Some (b, s'))
   \<and> (add_chord s c = Some (b, s') \<longrightarrow> add_chord s' c = Some (b, s'))
   \<and> (strictly_ascending (scale.intervals s) \<longrightarrow>
        (\<exists>b s'. has_chord s c = Some (b, s')) \<and> (\<exists>b s'. add_chord s c = Some (b, s')))"
  using has_chord_stable add_chord_again has_chord_total add_chord_total by blast

theorem has_chord_repeatable_witness:
  "has_chord major_scale major_chord
     = Some (True, major_scale\<lparr>chords := [''Major'' \<mapsto> {0, 3, 4}]\<rparr>)
   \<and> add_chord major_scale major_chord
     = Some (True, major_scale\<lparr>chords := [''Major'' \<mapsto> {0, 3, 4}]\<rparr>)
   \<and> strictly_ascending (scale.intervals major_scale)
   \<and> chords (major_scale\<lparr>chords := [''Major'' \<mapsto> {0, 3, 4}]\<rparr>) (chord.name major_chord)
       = Some {0, 3, 4}
   \<and> has_chord (major_scale\<lparr>chords := [''Major'' \<mapsto> {0, 3, 4}]\<rparr>) major_chord
     = Some (True, major_scale\<lparr>chords := [''Major'' \<mapsto> {0, 3, 4}]\<rparr>)
   \<and> add_chord (major_scale\<lparr>chords := [''Major'' \<mapsto> {0, 3, 4}]\<rparr>) major_chord
     = Some (True, major_scale\<lparr>chords := [''Major'' \<mapsto> {0, 3, 4}]\<rparr>)"
proof -
  let ?s' = "major_scale\<lparr>chords := [''Major'' \<mapsto> {0, 3, 4}]\<rparr>"
  have a: "add_chord major_scale major_chord = Some (True, ?s')"
    using major_in_major [of Map.empty] by (simp add: major_scale_def fresh_scale)
  have h: "has_chord major_scale major_chord = Some (True, ?s')"
    using a by (simp add: has_chord_def major_scale_def Scale_def)
  have k: "chords ?s' (chord.name major_chord) = Some {0, 3, 4}"
    by (simp add: major_chord_def Chord_def)
  from has_chord_repeatable [of major_scale major_chord True ?s'] a h k major_scale_ascending
  show ?thesis by blast
qed

section \<open>Relationships\<close>

text \<open>
  The line of a pair, field by field. The eighth argument of \<open>format\<close>,
  \<open>key_distance mod 12\<close>, is named by no field of the format string.
\<close>

lemma relationship_format_fields:
  "py_format relationship_format [a0, a1, a2, a3, a4, a5, a6, a7] =
     Inr (''Distance between '' @ a0 @ '' to '' @ a1 @ '' (via '' @ a2 @ '' chord at '' @ a3
       @ '' for the first scale to '' @ a4
       @ '' of the second scale) (Looking where Scale 2 is relative to Scale 1) is '' @ a5
       @ '' fifths right, or '' @ a6 @ '' fourths left or, or semitones right.\<newline>'')"
  by (simp add: relationship_format_def)

lemma relationship_eq:
  assumes "interval_between scale_1 0 root_1 = Inr dist_1"
    and "interval_between scale_1 0 root_2 = Inr dist_2"
  shows "relationship scale_1 scale_2 c root_1 root_2 =
     Inr (''Distance between '' @ scale.name scale_1 @ '' to '' @ scale.name scale_2
       @ '' (via '' @ chord.name c @ '' chord at '' @ str (int root_1 + 1)
       @ '' for the first scale to '' @ str (int root_2 + 1)
       @ '' of the second scale) (Looking where Scale 2 is relative to Scale 1) is ''
       @ str (((dist_2 - dist_1) * 7) mod 12)
       @ '' fifths right, or '' @ str ((12 - ((dist_2 - dist_1) * 7) mod 12) mod 12)
       @ '' fourths left or, or semitones right.\<newline>'',
       ((dist_2 - dist_1) * 7) mod 12)"
  by (simp add: relationship_def assms relationship_format_fields Let_def)

lemma sum_steps_error: "sum_steps ivs i ks acc = Inl e \<Longrightarrow> e = ZeroDivisionError"
  by (induction ks arbitrary: acc) (auto split: if_splits)

lemma interval_between_error: "interval_between s i j = Inl e \<Longrightarrow> e = ZeroDivisionError"
  by (auto simp: interval_between_def dest: sum_steps_error split: if_splits)

lemma relationship_error:
  "relationship scale_1 scale_2 c root_1 root_2 = Inl e \<Longrightarrow> e = ZeroDivisionError"
  by (auto simp: relationship_def relationship_format_fields Let_def
      dest: interval_between_error split: sum.splits)

lemma major_offsets:
  "interval_between (major_scale\<lparr>chords := m\<rparr>) 0 0 = Inr 0"
  "interval_between (major_scale\<lparr>chords := m\<rparr>) 0 3 = Inr 5"
  "interval_between (major_scale\<lparr>chords := m\<rparr>) 0 4 = Inr 7"
  by (simp_all add: interval_between_def major_scale_def Scale_def upt_conv_Cons)

lemma major_names:
  "scale.name (major_scale\<lparr>chords := m\<rparr>) = ''Major''"
  "scale.name major_scale = ''Major''"
  "chord.name major_chord = ''Major''"
  by (simp_all add: major_scale_def major_chord_def Scale_def Chord_def)

lemma major_relationships:
  "\<exists>rep. relationships (major_scale\<lparr>chords := m\<rparr>) (major_scale\<lparr>chords := m\<rparr>) major_chord
      {0, 3, 4} {0, 3, 4} = Inr rep \<and> fifths_relations rep = {0, 1, 2, 10, 11}
    \<and> ''Distance between Major to Major (via Major chord at 1 for the first scale to 4 of the second scale) (Looking where Scale 2 is relative to Scale 1) is 11 fifths right, or 1 fourths left or, or semitones right.\<newline>''
        \<in> lines rep"
  by (auto simp: relationships_def relationship_eq major_offsets str_def digits.simps
      major_names)

text \<open>
  The call on the Major scale as both scales (one object), with the Major chord not yet
  searched or already stored.
\<close>

lemma major_chordal_relationships:
  assumes "m ''Major'' = None \<or> m ''Major'' = Some {0, 3, 4}"
  shows "\<exists>h' rep. chordal_relationships (\<lambda>_. major_scale\<lparr>chords := m\<rparr>) 0 0 major_chord
      = Some (h', Inr rep) \<and> fifths_relations rep = {0, 1, 2, 10, 11}
    \<and> ''Distance between Major to Major (via Major chord at 1 for the first scale to 4 of the second scale) (Looking where Scale 2 is relative to Scale 1) is 11 fifths right, or 1 fourths left or, or semitones right.\<newline>''
        \<in> lines rep"
proof -
  let ?m = "m(''Major'' \<mapsto> {0, 3, 4})"
  let ?s = "major_scale\<lparr>chords := ?m\<rparr>"
  have n: "chord.name major_chord = ''Major''"
    by (simp add: major_chord_def Chord_def)
  have 1: "has_chord (major_scale\<lparr>chords := m\<rparr>) major_chord = Some (True, ?s)"
  proof (cases "m ''Major''")
    case None
    then show ?thesis by (simp add: has_chord_def n major_in_major)
  next
    case (Some roots)
    with assms have "m ''Major'' = Some {0, 3, 4}" by simp
    then have "?m = m" by (auto simp: fun_upd_idem_iff)
    then show ?thesis using \<open>m ''Major'' = Some {0, 3, 4}\<close>
      by (simp add: has_chord_def n)
  qed
  have 2: "has_chord ?s major_chord = Some (True, ?s)"
    by (simp add: has_chord_def n)
  have 3: "chords ?s ''Major'' = Some {0, 3, 4}"
    by simp
  from major_relationships [of ?m] obtain rep where
    r: "relationships ?s ?s major_chord {0, 3, 4} {0, 3, 4} = Inr rep"
    and f: "fifths_relations rep = {0, 1, 2, 10, 11}"
    and l: "''Distance between Major to Major (via Major chord at 1 for the first scale to 4 of the second scale) (Looking where Scale 2 is relative to Scale 1) is 11 fifths right, or 1 fourths left or, or semitones right.\<newline>''
        \<in> lines rep"
    by blast
  have "chordal_relationships (\<lambda>_. major_scale\<lparr>chords := m\<rparr>) 0 0 major_chord
      = Some ((\<lambda>_. major_scale\<lparr>chords := m\<rparr>)(0 := ?s), Inr rep)"
    by (simp add: chordal_relationships_def 1 2 n 3 r del: scale.simps)
  with f l show ?thesis by blast
qed

lemma pairwise_fifths_offsets: "pairwise_fifths {0, 5, 7} = {0, 1, 2, 10, 11}"
  by (auto simp: pairwise_fifths_def)

lemma spec_pairwise_fifths_roots: "spec_pairwise_fifths {0, 3, 4} = {0, 3, 4, 5, 7, 8, 9}"
  by (auto simp: spec_pairwise_fifths_def pairwise_fifths_def)

text \<open>
  C3 as stated fails: the differences are not taken among the roots \<open>{0, 3, 4}\<close>, which
  would give \<open>{0, 3, 4, 5, 7, 8, 9}\<close>.
\<close>

theorem major_fifths_counterexample:
  "reachable (chordal_relationships (\<lambda>_. major_scale) 0 0 major_chord)
     \<noteq> Some (spec_pairwise_fifths {0, 3, 4})"
proof -
  from major_chordal_relationships [of Map.empty]
  have "reachable (chordal_relationships (\<lambda>_. major_scale) 0 0 major_chord)
          = Some {0, 1, 2, 10, 11}"
    by (auto simp: reachable_def major_scale_def fresh_scale)
  moreover have "(1::int) \<in> {0, 1, 2, 10, 11}" and "(1::int) \<notin> {0, 3, 4, 5, 7, 8, 9}"
    by simp_all
  then have "{0, 1, 2, 10, 11} \<noteq> {0, 3, 4, 5, 7, 8, 9 :: int}"
    by blast
  ultimately show ?thesis
    by (simp add: spec_pairwise_fifths_roots)
qed

text \<open>
  C3, amended. On the Major scale as both scales, with the Major chord not yet searched
  or already stored as \<open>{0, 3, 4}\<close>, the set \<open>fifths_relations\<close> accumulated by
  \<open>chordal_relationships\<close> contains 0 and is \<open>{0, 1, 2, 10, 11}\<close>: the pairwise
  differences, scaled by 7 modulo 12, among the distances \<open>{0, 5, 7}\<close> in semitones from
  degree 0 to the fitting roots 0, 3 and 4.
\<close>

theorem major_fifths:
  "reachable (chordal_relationships (\<lambda>_. major_scale) 0 0 major_chord)
     = Some (pairwise_fifths {0, 5, 7})
   \<and> reachable (chordal_relationships
         (\<lambda>_. major_scale\<lparr>chords := m(''Major'' \<mapsto> {0, 3, 4})\<rparr>) 0 0 major_chord)
     = Some (pairwise_fifths {0, 5, 7})
   \<and> 0 \<in> pairwise_fifths {0, 5, 7}
   \<and> pairwise_fifths {0, 5, 7} = {0, 1, 2, 10, 11}
   \<and> interval_between major_scale 0 0 = Inr 0
   \<and> interval_between major_scale 0 3 = Inr 5
   \<and> interval_between major_scale 0 4 = Inr 7"
proof -
  from major_chordal_relationships [of Map.empty]
  have "reachable (chordal_relationships (\<lambda>_. major_scale) 0 0 major_chord)
          = Some {0, 1, 2, 10, 11}"
    by (auto simp: reachable_def major_scale_def fresh_scale)
  moreover from major_chordal_relationships [of "m(''Major'' \<mapsto> {0, 3, 4})"]
  have "reachable (chordal_relationships
         (\<lambda>_. major_scale\<lparr>chords := m(''Major'' \<mapsto> {0, 3, 4})\<rparr>) 0 0 major_chord)
          = Some {0, 1, 2, 10, 11}"
    by (auto simp: reachable_def)
  moreover have "interval_between major_scale 0 0 = Inr 0"
    "interval_between major_scale 0 3 = Inr 5" "interval_between major_scale 0 4 = Inr 7"
    using major_offsets [of Map.empty] by (simp_all add: major_scale_def fresh_scale)
  ultimately show ?thesis by (simp add: pairwise_fifths_offsets)
qed

text \<open>
  C2, at the pair of roots 0 and 3 of the Major chord in the Major scale: the distances
  are 0 and 5, so \<open>key_distance\<close> is 5; the line shows 11 fifths and 1 fourth, and no
  semitones.
\<close>

theorem relationship_line_without_semitones:
  "interval_between major_scale 0 0 = Inr 0
   \<and> interval_between major_scale 0 3 = Inr 5
   \<and> relationship major_scale major_scale major_chord 0 3 =
       Inr (''Distance between Major to Major (via Major chord at 1 for the first scale to 4 of the second scale) (Looking where Scale 2 is relative to Scale 1) is 11 fifths right, or 1 fourths left or, or semitones right.\<newline>'', 11)
   \<and> (\<exists>h' rep. chordal_relationships (\<lambda>_. major_scale) 0 0 major_chord = Some (h', Inr rep)
        \<and> ''Distance between Major to Major (via Major chord at 1 for the first scale to 4 of the second scale) (Looking where Scale 2 is relative to Scale 1) is 11 fifths right, or 1 fourths left or, or semitones right.\<newline>''
           \<in> lines rep)"
proof -
  have o: "interval_between major_scale 0 0 = Inr 0" "interval_between major_scale 0 3 = Inr 5"
    using major_offsets [of Map.empty] by (simp_all add: major_scale_def fresh_scale)
  have "relationship major_scale major_scale major_chord 0 3 =
       Inr (''Distance between Major to Major (via Major chord at 1 for the first scale to 4 of the second scale) (Looking where Scale 2 is relative to Scale 1) is 11 fifths right, or 1 fourths left or, or semitones right.\<newline>'', 11)"
    by (simp add: relationship_eq [OF o] str_def digits.simps major_names)
  moreover from major_chordal_relationships [of Map.empty]
  have "\<exists>h' rep. chordal_relationships (\<lambda>_. major_scale) 0 0 major_chord = Some (h', Inr rep)
        \<and> ''Distance between Major to Major (via Major chord at 1 for the first scale to 4 of the second scale) (Looking where Scale 2 is relative to Scale 1) is 11 fifths right, or 1 fourths left or, or semitones right.\<newline>''
           \<in> lines rep"
    by (auto simp: major_scale_def fresh_scale)
  ultimately show ?thesis using o by blast
qed

section \<open>A chord that one of the scales lacks\<close>

lemma chordal_relationships_first_lacks:
  assumes "has_chord (h scale_1) c = Some (False, s1)"
  shows "chordal_relationships h scale_1 scale_2 c =
     Some (h(scale_1 := s1),
           Inr \<lparr>lines = {}, summary_chord = chord.name c, fifths_relations = {}\<rparr>)"
  by (simp add: chordal_relationships_def assms)

lemma chordal_relationships_second_lacks:
  assumes "has_chord (h scale_1) c = Some (True, s1)"
    and "has_chord ((h(scale_1 := s1)) scale_2) c = Some (False, s2)"
  shows "chordal_relationships h scale_1 scale_2 c =
     Some (h(scale_1 := s1, scale_2 := s2),
           Inr \<lparr>lines = {}, summary_chord = chord.name c, fifths_relations = {}\<rparr>)"
  using assms by (simp add: chordal_relationships_def Let_def)

text \<open>
  C9. When \<open>has_chord\<close> is false for the first scale, or true for the first and false for
  the second (asked on the store the first call left), \<open>chordal_relationships\<close> returns
  normally, prints no line for any pair, and its summary shows the empty set.
\<close>

theorem chordal_relationships_without_chord:
  assumes "has_chord (h scale_1) c = Some (False, s1)
     \<or> (has_chord (h scale_1) c = Some (True, s1)
        \<and> has_chord ((h(scale_1 := s1)) scale_2) c = Some (False, s2))"
  shows "\<exists>h'. chordal_relationships h scale_1 scale_2 c =
     Some (h', Inr \<lparr>lines = {}, summary_chord = chord.name c, fifths_relations = {}\<rparr>)"
  using assms chordal_relationships_first_lacks chordal_relationships_second_lacks
  by blast

theorem chordal_relationships_without_chord_witness:
  "has_chord (((\<lambda>_. major_scale)(0 := harmonic_minor)) (0::ref)) aug_chord
     = Some (True, harmonic_minor\<lparr>chords := [''Augmented'' \<mapsto> {2, 4, 6}]\<rparr>)
   \<and> has_chord ((((\<lambda>_. major_scale)(0 := harmonic_minor))
          (0 := harmonic_minor\<lparr>chords := [''Augmented'' \<mapsto> {2, 4, 6}]\<rparr>)) (1::ref)) aug_chord
     = Some (False, major_scale\<lparr>chords := [''Augmented'' \<mapsto> {}]\<rparr>)
   \<and> (\<exists>h'. chordal_relationships ((\<lambda>_. major_scale)(0 := harmonic_minor)) 0 1 aug_chord =
     Some (h', Inr \<lparr>lines = {}, summary_chord = ''Augmented'', fifths_relations = {}\<rparr>))"
proof -
  let ?h = "(\<lambda>_. major_scale)(0 := harmonic_minor) :: store"
  let ?s1 = "harmonic_minor\<lparr>chords := [''Augmented'' \<mapsto> {2, 4, 6}]\<rparr>"
  let ?s2 = "major_scale\<lparr>chords := [''Augmented'' \<mapsto> {}]\<rparr>"
  have n: "chord.name aug_chord = ''Augmented''"
    by (simp add: aug_chord_def Chord_def)
  have e: "chords harmonic_minor = Map.empty" "chords major_scale = Map.empty"
    by (simp_all add: harmonic_minor_def major_scale_def Scale_def)
  have a1: "add_chord harmonic_minor aug_chord = Some (True, ?s1)"
    using aug_in_harmonic_minor [of Map.empty] by (simp add: harmonic_minor_def fresh_scale)
  have a2: "add_chord major_scale aug_chord = Some (False, ?s2)"
    using aug_in_major [of Map.empty] by (simp add: major_scale_def fresh_scale)
  have 1: "has_chord (?h 0) aug_chord = Some (True, ?s1)"
    by (simp add: has_chord_def e n a1)
  have 2: "has_chord ((?h(0 := ?s1)) 1) aug_chord = Some (False, ?s2)"
    by (simp add: has_chord_def e n a2)
  from chordal_relationships_without_chord [of ?h 0 aug_chord ?s1 1 ?s2] 1 2
  show ?thesis by (simp add: n)
qed

section \<open>The search finds the roots the specification describes\<close>

lemma spec_match_accumulate:
  "spec_match ivs i acc t i' \<Longrightarrow> accumulate ivs t i acc = Some (False, i')"
proof (induction rule: spec_match.induct)
  case (match_here acc ivs i t)
  then show ?case by (subst accumulate.simps) (simp add: Let_def)
next
  case (match_later acc ivs i t i')
  then show ?case by (subst accumulate.simps) (simp add: Let_def)
qed

lemma spec_exceeds_accumulate:
  "spec_exceeds ivs i acc t \<Longrightarrow> \<exists>i'. accumulate ivs t i acc = Some (True, i')"
proof (induction rule: spec_exceeds.induct)
  case (exceeds_here t acc ivs i)
  then show ?case by (subst accumulate.simps) (simp add: Let_def)
next
  case (exceeds_later acc ivs i t)
  then show ?case by (subst accumulate.simps) (simp add: Let_def)
qed

lemma accumulate_spec:
  assumes "strictly_ascending ivs" and "i < length ivs"
  shows "\<exists>over i'. accumulate ivs t i acc = Some (over, i') \<and> i' < length ivs
    \<and> (if over then spec_exceeds ivs i acc t else spec_match ivs i acc t i')"
  using assms(2)
proof (induction "nat (t - acc)" arbitrary: i acc rule: less_induct)
  case less
  let ?acc = "acc + ivs ! i" and ?i = "Suc i mod length ivs"
  have pos: "0 < ivs ! i" using assms(1) less.prems by (rule strictly_ascending_nth)
  have lt: "?i < length ivs" using assms(1) by (rule strictly_ascending_mod)
  consider "?acc = t" | "?acc > t" | "?acc < t" by linarith
  then show ?case
  proof cases
    case 1
    then have "accumulate ivs t i acc = Some (False, ?i)"
      by (subst accumulate.simps) (simp add: Let_def)
    moreover from 1 have "spec_match ivs i acc t ?i"
      by (rule spec_match.match_here)
    ultimately show ?thesis using lt by auto
  next
    case 2
    then have "accumulate ivs t i acc = Some (True, ?i)"
      by (subst accumulate.simps) (simp add: Let_def)
    moreover from 2 have "spec_exceeds ivs i acc t"
      by (rule spec_exceeds.exceeds_here)
    ultimately show ?thesis using lt by auto
  next
    case 3
    then have "nat (t - ?acc) < nat (t - acc)" using pos by linarith
    from less.hyps [OF this lt] obtain over i' where
      a: "accumulate ivs t ?i ?acc = Some (over, i')" and i': "i' < length ivs"
      and sp: "if over then spec_exceeds ivs ?i ?acc t else spec_match ivs ?i ?acc t i'"
      by blast
    from 3 a have "accumulate ivs t i acc = Some (over, i')"
      by (subst accumulate.simps) (simp add: Let_def)
    moreover from 3 sp have "if over then spec_exceeds ivs i acc t else spec_match ivs i acc t i'"
      by (auto intro: spec_match.match_later spec_exceeds.exceeds_later)
    ultimately show ?thesis using i' by blast
  qed
qed

inductive_simps spec_excluded_Nil: "spec_excluded ivs r []"

inductive_simps spec_excluded_Cons: "spec_excluded ivs r (t # ts)"

inductive_simps spec_fits_Cons: "spec_fits ivs r (t # ts)"

lemma match_intervals_spec:
  assumes "strictly_ascending ivs"
  shows "i < length ivs \<Longrightarrow>
    \<exists>illegal i'. match_intervals ivs cis i illegal_chord = Some (illegal, i')
      \<and> (illegal \<longleftrightarrow> illegal_chord \<or> spec_excluded ivs i cis)
      \<and> (spec_fits ivs i cis \<longleftrightarrow> \<not> spec_excluded ivs i cis)"
proof (induction cis arbitrary: i illegal_chord)
  case Nil
  then show ?case by (simp add: spec_excluded_Nil spec_fits.fits_done)
next
  case (Cons t cis)
  from accumulate_spec [OF assms Cons.prems, of t 0]
  obtain over i' where a: "accumulate ivs t i 0 = Some (over, i')" and i': "i' < length ivs"
    and sp: "if over then spec_exceeds ivs i 0 t else spec_match ivs i 0 t i'"
    by blast
  from Cons.IH [OF i', of "illegal_chord \<or> over"]
  obtain illegal i'' where
    m: "match_intervals ivs cis i' (illegal_chord \<or> over) = Some (illegal, i'')"
    and ill: "illegal \<longleftrightarrow> (illegal_chord \<or> over) \<or> spec_excluded ivs i' cis"
    and fits: "spec_fits ivs i' cis \<longleftrightarrow> \<not> spec_excluded ivs i' cis"
    by blast
  have call: "match_intervals ivs (t # cis) i illegal_chord = Some (illegal, i'')"
    by (simp add: a m)
  note ex_iff = spec_excluded_Cons [of ivs i t cis]
  note fit_iff = spec_fits_Cons [of ivs i t cis]
  show ?case
  proof (cases over)
    case True
    with sp have ex: "spec_exceeds ivs i 0 t" by simp
    have no: "\<not> spec_match ivs i 0 t r'" for r'
    proof
      assume "spec_match ivs i 0 t r'"
      then have "accumulate ivs t i 0 = Some (False, r')" by (rule spec_match_accumulate)
      with a True show False by simp
    qed
    from ex have 1: "spec_excluded ivs i (t # cis)" unfolding ex_iff by blast
    from no have 2: "\<not> spec_fits ivs i (t # cis)" unfolding fit_iff by blast
    from ill True have 3: illegal by blast
    from call 1 2 3 show ?thesis by blast
  next
    case False
    with sp have ma: "spec_match ivs i 0 t i'" by simp
    have only: "r' = i'" if "spec_match ivs i 0 t r'" for r'
    proof -
      from that have "accumulate ivs t i 0 = Some (False, r')" by (rule spec_match_accumulate)
      with a show ?thesis by simp
    qed
    have no: "\<not> spec_exceeds ivs i 0 t"
    proof
      assume "spec_exceeds ivs i 0 t"
      then obtain j where "accumulate ivs t i 0 = Some (True, j)"
        using spec_exceeds_accumulate by blast
      with a False show False by simp
    qed
    have 1: "spec_excluded ivs i (t # cis) \<longleftrightarrow> spec_excluded ivs i' cis"
      unfolding ex_iff using ma only no by blast
    have 2: "spec_fits ivs i (t # cis) \<longleftrightarrow> spec_fits ivs i' cis"
      unfolding fit_iff using ma only by blast
    from ill False have 3: "illegal \<longleftrightarrow> illegal_chord \<or> spec_excluded ivs i' cis" by blast
    from call 1 2 3 fits show ?thesis by blast
  qed
qed

lemma try_base_notes_spec:
  assumes "strictly_ascending ivs"
  shows "\<forall>b \<in> set bs. b < length ivs \<Longrightarrow>
    try_base_notes ivs cis bs found chord_added =
      Some (found \<union> {b \<in> set bs. spec_fits ivs b cis},
            chord_added \<or> (\<exists>b \<in> set bs. spec_fits ivs b cis))"
proof (induction bs arbitrary: found chord_added)
  case Nil
  then show ?case by simp
next
  case (Cons b bs)
  then have "b < length ivs" by simp
  from match_intervals_spec [OF assms this, of cis False]
  obtain illegal i' where m: "match_intervals ivs cis b False = Some (illegal, i')"
    and ill: "illegal \<longleftrightarrow> spec_excluded ivs b cis"
    and fits: "spec_fits ivs b cis \<longleftrightarrow> \<not> spec_excluded ivs b cis"
    by auto
  from Cons.prems have rest: "\<forall>b \<in> set bs. b < length ivs" by simp
  show ?case
  proof (cases illegal)
    case True
    with ill fits have "\<not> spec_fits ivs b cis" by simp
    with True m Cons.IH [OF rest, of found chord_added] show ?thesis by auto
  next
    case False
    with ill fits have "spec_fits ivs b cis" by simp
    with False m Cons.IH [OF rest, of "insert b found" True] show ?thesis by auto
  qed
qed

text \<open>
  C1. On a scale with at least one interval, all intervals positive, \<open>add_chord\<close> stores
  under the chord's name exactly the set of the degrees \<open>r\<close> below \<open>num_notes()\<close> from
  which every target of the chord is matched in turn by a running sum that starts again
  from zero after each match; a degree is left out exactly when some running sum exceeds
  its target before equalling it; and \<open>add_chord\<close> returns true exactly when the set is not
  empty.
\<close>

theorem add_chord_finds_fitting_roots:
  assumes "strictly_ascending (scale.intervals s)"
  shows "add_chord s c =
      Some (spec_fitting_roots s c \<noteq> {},
            s\<lparr>chords := (chords s)(chord.name c \<mapsto> spec_fitting_roots s c)\<rparr>)
    \<and> (\<forall>r < num_notes s. r \<notin> spec_fitting_roots s c
          \<longleftrightarrow> spec_excluded (scale.intervals s) r (chord.intervals c))"
proof -
  have "try_base_notes (scale.intervals s) (chord.intervals c) [0..<num_notes s] {} False =
      Some ({} \<union> {b \<in> set [0..<num_notes s].
                spec_fits (scale.intervals s) b (chord.intervals c)},
            False \<or> (\<exists>b \<in> set [0..<num_notes s].
                spec_fits (scale.intervals s) b (chord.intervals c)))"
    by (rule try_base_notes_spec [OF assms]) (simp add: num_notes_def)
  moreover have "{b \<in> set [0..<num_notes s].
      spec_fits (scale.intervals s) b (chord.intervals c)} = spec_fitting_roots s c"
    by (auto simp: spec_fitting_roots_def)
  moreover have "(\<exists>b \<in> set [0..<num_notes s].
      spec_fits (scale.intervals s) b (chord.intervals c)) \<longleftrightarrow> spec_fitting_roots s c \<noteq> {}"
    by (auto simp: spec_fitting_roots_def)
  ultimately have "add_chord s c =
      Some (spec_fitting_roots s c \<noteq> {},
            s\<lparr>chords := (chords s)(chord.name c \<mapsto> spec_fitting_roots s c)\<rparr>)"
    by (simp add: add_chord_def)
  moreover have "r \<notin> spec_fitting_roots s c
      \<longleftrightarrow> spec_excluded (scale.intervals s) r (chord.intervals c)"
    if "r < num_notes s" for r
    using match_intervals_spec [OF assms, of r "chord.intervals c" False] that
    by (auto simp: spec_fitting_roots_def num_notes_def)
  ultimately show ?thesis by blast
qed

theorem add_chord_finds_fitting_roots_witness:
  "strictly_ascending (scale.intervals major_scale)
   \<and> spec_fitting_roots major_scale major_chord = {0, 3, 4}
   \<and> spec_excluded (scale.intervals major_scale) 1 (chord.intervals major_chord)"
proof -
  from add_chord_finds_fitting_roots [OF major_scale_ascending, of major_chord]
  have a: "add_chord major_scale major_chord =
      Some (spec_fitting_roots major_scale major_chord \<noteq> {},
            major_scale\<lparr>chords := (chords major_scale)
              (chord.name major_chord \<mapsto> spec_fitting_roots major_scale major_chord)\<rparr>)"
    and e: "\<forall>r < num_notes major_scale. r \<notin> spec_fitting_roots major_scale major_chord
          \<longleftrightarrow> spec_excluded (scale.intervals major_scale) r (chord.intervals major_chord)"
    by blast+
  have "add_chord major_scale major_chord
      = Some (True, major_scale\<lparr>chords := [''Major'' \<mapsto> {0, 3, 4}]\<rparr>)"
    using major_in_major [of Map.empty] by (simp add: major_scale_def fresh_scale)
  with a have "major_scale\<lparr>chords := (chords major_scale)
              (chord.name major_chord \<mapsto> spec_fitting_roots major_scale major_chord)\<rparr>
      = major_scale\<lparr>chords := [''Major'' \<mapsto> {0, 3, 4}]\<rparr>"
    by simp
  then have "(chords major_scale)
              (chord.name major_chord \<mapsto> spec_fitting_roots major_scale major_chord)
      = Map.empty(chord.name major_chord \<mapsto> {0, 3, 4})"
    by (simp add: major_scale_def Scale_def major_chord_def Chord_def)
  then have f: "spec_fitting_roots major_scale major_chord = {0, 3, 4}"
    by (rule map_upd_eqD1)
  have "(1::nat) < num_notes major_scale"
    by (simp add: num_notes_def major_scale_def Scale_def)
  with e f have "spec_excluded (scale.intervals major_scale) 1 (chord.intervals major_chord)"
    by auto
  with major_scale_ascending f show ?thesis by blast
qed

end
